theory Spec2Isabelle
  imports Main "HOL-Library.Word" "HOL-Library.Signed_Division"
begin

section \<open>Dynamic values\<close>

text \<open>
  The masker, \<open>toJSON\<close> and \<open>removeAuth\<close> all take and return Go's \<open>interface{}\<close>.
  \<open>gvalue\<close> is the closed set of dynamic types the type switches of \<open>logger.go\<close>
  tell apart, plus the scalars that reach their default branches:
  \<^item> \<open>VNil\<close>: the untyped \<open>nil\<close> interface (\<open>body == nil\<close>);
  \<^item> \<open>VString\<close>: a Go \<open>string\<close>; \<open>VBytes\<close>: a \<open>[]byte\<close> (both byte sequences);
  \<^item> \<open>VMap\<close>: a \<open>map[string]interface{}\<close>, which may be the nil map (\<open>NilMap\<close>);
  \<^item> \<open>VArray\<close>: a \<open>[]interface{}\<close>;
  \<^item> \<open>VError\<close>: a non-nil \<open>error\<close> value with the given message;
  \<^item> \<open>VHttpHeader\<close>: a \<open>net/http\<close> \<open>Header\<close> (a \<open>map[string][]string\<close>);
  \<^item> \<open>VFastHeader\<close>: a \<open>fasthttp.RequestHeader\<close> struct, opaque (type \<open>'fh\<close>);
  \<^item> \<open>VBool\<close>, \<open>VInt\<close>: scalars; \<open>VOther\<close>: a value of any other Go type (a
    \<open>float64\<close>, a struct, a typed slice or map such as \<open>[]string\<close>), by a tag.

  A Go map is modelled by the list of its entries in the order the \<open>range\<close> loop
  visits them. The loop of \<open>maskFieldMap\<close> handles every entry on its own, so the
  order carries no meaning; lookups (\<open>m[k]\<close>) are \<open>map_of\<close>.
\<close>

datatype 'fh gvalue =
    VNil
  | VBool bool
  | VInt int
  | VString string
  | VBytes string
  | VMap "'fh gmap"
  | VArray "'fh gvalue list"
  | VError string
  | VHttpHeader "(string \<times> string list) list"
  | VFastHeader 'fh
  | VOther string
and 'fh gmap =
    NilMap
  | Map "(string \<times> 'fh gvalue) list"

section \<open>Library functions the code calls\<close>

text \<open>
  \<open>logger.go\<close> calls into the Go standard library, \<open>goccy/go-json\<close> and
  \<open>fasthttp\<close>. These are not part of the repository: the model takes them as the
  fields of one record and every theorem holds for whatever they compute.
  \<^item> \<open>strings_ToLower\<close>: \<open>strings.ToLower\<close>;
  \<^item> \<open>json_Unmarshal\<close>: \<open>json.Unmarshal(data, &m)\<close> with \<open>m\<close> a nil
    \<open>map[string]interface{}\<close>; \<open>None\<close> is a non-nil \<open>err\<close>, \<open>Some m\<close> is the
    value of the variable afterwards when \<open>err\<close> is nil;
  \<^item> \<open>textproto_CanonicalMIMEHeaderKey\<close>: the canonical form \<open>http.Header.Del\<close>
    applies to its argument;
  \<^item> \<open>fasthttp_Del\<close>, \<open>fasthttp_Header\<close>: the methods \<open>Del\<close> and \<open>Header\<close> of
    \<open>fasthttp.RequestHeader\<close>.
\<close>

record 'fh lib =
  strings_ToLower :: "string \<Rightarrow> string"
  json_Unmarshal :: "string \<Rightarrow> 'fh gmap option"
  textproto_CanonicalMIMEHeaderKey :: "string \<Rightarrow> string"
  fasthttp_Del :: "string \<Rightarrow> 'fh \<Rightarrow> 'fh"
  fasthttp_Header :: "'fh \<Rightarrow> string"

section \<open>Masking policy\<close>

definition SENSITIVE_HEADER :: "string list" where
  "SENSITIVE_HEADER = [''Authorization'', ''Signature'', ''Apikey'']"

definition SENSITIVE_ATTR :: "(string \<times> bool) list" where
  "SENSITIVE_ATTR =
     [(''password'', True), (''license'', True), (''license_code'', True),
      (''token'', True), (''access_token'', True), (''refresh_token'', True)]"

definition isSensitiveField :: "'fh lib \<Rightarrow> string \<Rightarrow> bool" where
  "isSensitiveField L key =
     (case map_of SENSITIVE_ATTR (strings_ToLower L key) of
        Some _ \<Rightarrow> True
      | None \<Rightarrow> False)"

section \<open>The masker\<close>

text \<open>
  \<open>maskFieldMap\<close>: the \<open>range\<close> loop over the entries is the outer \<open>map\<close>, the
  type switch on the value is the \<open>case\<close>, the inner loop over a
  \<open>[]interface{}\<close> is the inner \<open>map\<close>. \<open>strings.Repeat("*", 5)\<close> is
  \<open>replicate 5 CHR ''*''\<close>.
\<close>

fun maskFieldMap :: "'fh lib \<Rightarrow> 'fh gmap \<Rightarrow> 'fh gmap" where
  "maskFieldMap L NilMap = NilMap"
| "maskFieldMap L (Map bodyMap) =
     Map (map (\<lambda>(key, value).
       (key,
        case value of
          VMap v \<Rightarrow> VMap (maskFieldMap L v)
        | VArray v \<Rightarrow>
            VArray (map (\<lambda>item. case item of
                                  VMap itemMap \<Rightarrow> VMap (maskFieldMap L itemMap)
                                | _ \<Rightarrow> item) v)
        | _ \<Rightarrow> if isSensitiveField L key then VString (replicate 5 CHR ''*'')
               else value)) bodyMap)"

text \<open>
  \<open>maskField\<close>: there is a case for \<open>nil\<close>, one for \<open>[]byte\<close>, one for
  \<open>map[string]interface{}\<close>; every other dynamic type, \<open>string\<close> included, falls
  through to \<open>return body\<close>. The \<open>[]byte\<close> case returns \<open>string(bodyByte)\<close> when
  decoding fails.
\<close>

fun maskField :: "'fh lib \<Rightarrow> 'fh gvalue \<Rightarrow> 'fh gvalue" where
  "maskField L VNil = VNil"
| "maskField L (VBytes bodyByte) =
     (if length bodyByte = 0 then VBytes bodyByte
      else case json_Unmarshal L bodyByte of
             None \<Rightarrow> VString bodyByte
           | Some bodyMap \<Rightarrow> VMap (maskFieldMap L bodyMap))"
| "maskField L (VMap bodyMap) = VMap (maskFieldMap L bodyMap)"
| "maskField L body = body"

fun toJSON :: "'fh lib \<Rightarrow> 'fh gvalue \<Rightarrow> 'fh gvalue" where
  "toJSON L VNil = VNil"
| "toJSON L (VString w) =
     (if w = [] then VString w
      else case json_Unmarshal L w of
             None \<Rightarrow> VString w
           | Some jsonobj \<Rightarrow> VMap jsonobj)"
| "toJSON L object = object"

section \<open>Header redaction\<close>

text \<open>
  \<open>http.Header.Del(key)\<close> is \<open>delete(h, CanonicalMIMEHeaderKey(key))\<close> on the
  underlying map: the entry stored under exactly that name goes, no other does.
\<close>

definition http_Header_Del ::
  "'fh lib \<Rightarrow> string \<Rightarrow> (string \<times> string list) list \<Rightarrow> (string \<times> string list) list" where
  "http_Header_Del L key h =
     filter (\<lambda>(k, vs). k \<noteq> textproto_CanonicalMIMEHeaderKey L key) h"

fun removeAuth :: "'fh lib \<Rightarrow> 'fh gvalue \<Rightarrow> 'fh gvalue" where
  "removeAuth L (VFastHeader mapHeader) =
     VString (fasthttp_Header L
       (foldl (\<lambda>h val. fasthttp_Del L val h) mapHeader SENSITIVE_HEADER))"
| "removeAuth L (VHttpHeader mapHeader) =
     VHttpHeader (foldl (\<lambda>h val. http_Header_Del L val h) mapHeader SENSITIVE_HEADER)"
| "removeAuth L header = header"

section \<open>Request context\<close>

text \<open>
  A \<open>context.Context\<close> is a chain of key/value pairs, the newest first; \<open>Value\<close>
  returns the newest value stored under a key, \<open>nil\<close> when there is none. Keys
  are compared with their dynamic type: \<open>contextKey "traceId"\<close> and the plain
  string \<open>"traceId"\<close> are different keys.
\<close>

datatype ctx_key = contextKey string | stringKey string | otherKey nat

type_synonym 'fh Context = "(ctx_key \<times> 'fh gvalue) list"

definition TraceIDKey :: ctx_key where "TraceIDKey = contextKey ''traceId''"
definition SrcIPKey :: ctx_key where "SrcIPKey = contextKey ''srcIP''"
definition PortKey :: ctx_key where "PortKey = contextKey ''port''"
definition PathKey :: ctx_key where "PathKey = contextKey ''path''"

definition Value_ctx :: "'fh Context \<Rightarrow> ctx_key \<Rightarrow> 'fh gvalue" where
  "Value_ctx ctx k = (case map_of ctx k of None \<Rightarrow> VNil | Some v \<Rightarrow> v)"

definition WithValue :: "'fh Context \<Rightarrow> ctx_key \<Rightarrow> 'fh gvalue \<Rightarrow> 'fh Context" where
  "WithValue ctx k v = (k, v) # ctx"

definition WithTraceID :: "'fh Context \<Rightarrow> string \<Rightarrow> 'fh Context" where
  "WithTraceID ctx traceID = WithValue ctx TraceIDKey (VString traceID)"

definition WithSrcIP :: "'fh Context \<Rightarrow> string \<Rightarrow> 'fh Context" where
  "WithSrcIP ctx srcIP = WithValue ctx SrcIPKey (VString srcIP)"

definition WithPort :: "'fh Context \<Rightarrow> string \<Rightarrow> 'fh Context" where
  "WithPort ctx port = WithValue ctx PortKey (VString port)"

definition WithPath :: "'fh Context \<Rightarrow> string \<Rightarrow> 'fh Context" where
  "WithPath ctx path = WithValue ctx PathKey (VString path)"

text \<open>The type assertion \<open>x.(string)\<close> in its two-result form.\<close>

fun assert_string :: "'fh gvalue \<Rightarrow> string \<times> bool" where
  "assert_string (VString s) = (s, True)"
| "assert_string _ = ([], False)"

section \<open>Log fields and records\<close>

datatype 'fh field =
    zap_String string string
  | zap_Any string "'fh gvalue"
  | zap_Uint64 string "64 word"
  | zap_Int64 string "64 word"

fun field_key :: "'fh field \<Rightarrow> string" where
  "field_key (zap_String k _) = k"
| "field_key (zap_Any k _) = k"
| "field_key (zap_Uint64 k _) = k"
| "field_key (zap_Int64 k _) = k"

definition populateFieldFromContext :: "'fh Context \<Rightarrow> 'fh field list" where
  "populateFieldFromContext ctx =
    (let fieldFromCtx = [];
         fieldFromCtx =
           (case assert_string (Value_ctx ctx TraceIDKey) of (v, ok) \<Rightarrow>
              if ok \<and> v \<noteq> [] then fieldFromCtx @ [zap_String ''traceId'' v]
              else case assert_string (Value_ctx ctx (stringKey ''traceId'')) of (v, ok) \<Rightarrow>
                if ok \<and> v \<noteq> [] then fieldFromCtx @ [zap_String ''traceId'' v]
                else fieldFromCtx);
         fieldFromCtx =
           (case assert_string (Value_ctx ctx SrcIPKey) of (v, ok) \<Rightarrow>
              if ok \<and> v \<noteq> [] then fieldFromCtx @ [zap_String ''srcIP'' v]
              else case assert_string (Value_ctx ctx (stringKey ''srcIP'')) of (v, ok) \<Rightarrow>
                if ok \<and> v \<noteq> [] then fieldFromCtx @ [zap_String ''srcIP'' v]
                else fieldFromCtx);
         fieldFromCtx =
           (case assert_string (Value_ctx ctx PortKey) of (v, ok) \<Rightarrow>
              if ok \<and> v \<noteq> [] then fieldFromCtx @ [zap_String ''port'' v]
              else case assert_string (Value_ctx ctx (stringKey ''port'')) of (v, ok) \<Rightarrow>
                if ok \<and> v \<noteq> [] then fieldFromCtx @ [zap_String ''port'' v]
                else fieldFromCtx);
         fieldFromCtx =
           (case assert_string (Value_ctx ctx PathKey) of (v, ok) \<Rightarrow>
              if ok \<and> v \<noteq> [] then fieldFromCtx @ [zap_String ''path'' v]
              else case assert_string (Value_ctx ctx (stringKey ''path'')) of (v, ok) \<Rightarrow>
                if ok \<and> v \<noteq> [] then fieldFromCtx @ [zap_String ''path'' v]
                else fieldFromCtx)
     in fieldFromCtx)"

section \<open>The logger\<close>

text \<open>
  A \<open>zap.Logger\<close> is modelled by the history of the calls made on it: each
  leveled write with its message and fields, and each \<open>Sync\<close>. Encoding, level
  filtering and rotation are the backend's. After a \<open>Fatal\<close> write the backend
  exits the process, after a \<open>Panic\<close> write it panics; the model records the
  write.
\<close>

datatype Level = DebugLevel | InfoLevel | WarnLevel | ErrorLevel | PanicLevel | FatalLevel

datatype 'fh zap_call = Write Level string "'fh field list" | Synced

type_synonym 'fh zap_Logger = "'fh zap_call list"

record 'fh Log =
  logger :: "'fh zap_Logger"
  loggerTDR :: "'fh zap_Logger"

text \<open>A value of Go's \<open>error\<close> interface, and its conversion to \<open>interface{}\<close>
  when it is passed to \<open>toJSON\<close>: no error value has dynamic type \<open>string\<close>.\<close>

datatype go_error = ErrNil | Err string

fun error_iface :: "go_error \<Rightarrow> 'fh gvalue" where
  "error_iface ErrNil = VNil"
| "error_iface (Err msg) = VError msg"

definition Log_Debug ::
  "'fh Log \<Rightarrow> 'fh Context \<Rightarrow> string \<Rightarrow> 'fh field list \<Rightarrow> 'fh Log" where
  "Log_Debug l ctx msg fields' =
    (let ctxField = populateFieldFromContext ctx;
         fields' = fields' @ ctxField
     in l\<lparr>logger := logger l @ [Write DebugLevel msg fields']\<rparr>)"

definition Log_Info ::
  "'fh Log \<Rightarrow> 'fh Context \<Rightarrow> string \<Rightarrow> 'fh field list \<Rightarrow> 'fh Log" where
  "Log_Info l ctx msg fields' =
    (let ctxField = populateFieldFromContext ctx;
         fields' = fields' @ ctxField
     in l\<lparr>logger := logger l @ [Write InfoLevel msg fields']\<rparr>)"

definition Log_Warn ::
  "'fh Log \<Rightarrow> 'fh Context \<Rightarrow> string \<Rightarrow> 'fh field list \<Rightarrow> 'fh Log" where
  "Log_Warn l ctx msg fields' =
    (let ctxField = populateFieldFromContext ctx;
         fields' = fields' @ ctxField
     in l\<lparr>logger := logger l @ [Write WarnLevel msg fields']\<rparr>)"

definition Log_Error ::
  "'fh lib \<Rightarrow> 'fh Log \<Rightarrow> 'fh Context \<Rightarrow> string \<Rightarrow> go_error \<Rightarrow> 'fh field list \<Rightarrow> 'fh Log" where
  "Log_Error L l ctx msg err fields' =
    (let ctxField = populateFieldFromContext ctx;
         fields' = fields' @ ctxField;
         fields' = fields' @ [zap_Any ''error'' (toJSON L (error_iface err))]
     in l\<lparr>logger := logger l @ [Write ErrorLevel msg fields']\<rparr>)"

definition Log_Fatal ::
  "'fh lib \<Rightarrow> 'fh Log \<Rightarrow> 'fh Context \<Rightarrow> string \<Rightarrow> go_error \<Rightarrow> 'fh field list \<Rightarrow> 'fh Log" where
  "Log_Fatal L l ctx msg err fields' =
    (let ctxField = populateFieldFromContext ctx;
         fields' = fields' @ ctxField;
         fields' = fields' @ [zap_Any ''error'' (toJSON L (error_iface err))]
     in l\<lparr>logger := logger l @ [Write FatalLevel msg fields']\<rparr>)"

definition Log_Panic ::
  "'fh lib \<Rightarrow> 'fh Log \<Rightarrow> 'fh Context \<Rightarrow> string \<Rightarrow> go_error \<Rightarrow> 'fh field list \<Rightarrow> 'fh Log" where
  "Log_Panic L l ctx msg err fields' =
    (let ctxField = populateFieldFromContext ctx;
         fields' = fields' @ ctxField;
         fields' = fields' @ [zap_Any ''error'' (toJSON L (error_iface err))]
     in l\<lparr>logger := logger l @ [Write PanicLevel msg fields']\<rparr>)"

text \<open>
  Modelled from the spec: the declaration of \<open>LogModel\<close> is not among the sources.
  The fields are those \<open>TDR\<close> reads and the tests set: payloads, headers, error
  and extra data are \<open>interface{}\<close>, \<open>HttpStatus\<close> is a \<open>uint64\<close>,
  \<open>ResponseTime\<close> a \<open>time.Duration\<close> (an \<open>int64\<close> of nanoseconds).
\<close>

record 'fh LogModel =
  CorrelationID :: string
  Header :: "'fh gvalue"
  Request :: "'fh gvalue"
  StatusCode :: string
  Method :: string
  Path :: string
  HttpStatus :: "64 word"
  Response :: "'fh gvalue"
  ResponseTime :: "64 word"
  Error :: "'fh gvalue"
  OtherData :: "'fh gvalue"

text \<open>\<open>Duration.Milliseconds\<close> is \<open>int64(d) / 1e6\<close>; Go's division truncates
  towards zero.\<close>

definition Milliseconds :: "64 word \<Rightarrow> 64 word" where
  "Milliseconds d = word_of_int (sint d sdiv 1000000)"

definition Log_TDR :: "'fh lib \<Rightarrow> 'fh Log \<Rightarrow> 'fh Context \<Rightarrow> 'fh LogModel \<Rightarrow> 'fh Log" where
  "Log_TDR L l ctx log =
    (let fields' = populateFieldFromContext ctx;
         fields' = fields' @ [zap_String ''correlationId'' (CorrelationID log)];
         fields' = fields' @ [zap_Any ''header'' (removeAuth L (Header log))];
         fields' = fields' @ [zap_Any ''request'' (toJSON L (maskField L (Request log)))];
         fields' = fields' @ [zap_String ''statusCode'' (StatusCode log)];
         fields' = fields' @ [zap_String ''method'' (Method log)];
         fields' = fields' @ [zap_Uint64 ''httpStatus'' (HttpStatus log)];
         fields' = fields' @ [zap_Any ''response'' (toJSON L (maskField L (Response log)))];
         fields' = fields' @ [zap_Int64 ''rt'' (Milliseconds (ResponseTime log))];
         fields' = fields' @ [zap_Any ''error'' (toJSON L (Error log))];
         fields' = fields' @ [zap_Any ''otherData'' (toJSON L (OtherData log))]
     in l\<lparr>loggerTDR := loggerTDR l @ [Write InfoLevel '':'' fields']\<rparr>)"

text \<open>
  \<open>Sync\<close>: what \<open>zap.Logger.Sync\<close> returns is the backend's affair. It is the
  parameter \<open>zap_Sync\<close>, which may depend on which of the two loggers is flushed
  and on the calls made on it so far. Both calls are made before either result
  is looked at.
\<close>

datatype sink = System | Transaction

definition Log_Sync ::
  "(sink \<Rightarrow> 'fh zap_Logger \<Rightarrow> go_error) \<Rightarrow> 'fh Log \<Rightarrow> 'fh Log \<times> go_error" where
  "Log_Sync zap_Sync l =
    (let err1 = zap_Sync System (logger l);
         l = l\<lparr>logger := logger l @ [Synced]\<rparr>;
         err2 = zap_Sync Transaction (loggerTDR l);
         l = l\<lparr>loggerTDR := loggerTDR l @ [Synced]\<rparr>
     in if err1 \<noteq> ErrNil then (l, err1) else (l, err2))"

section \<open>Vocabulary of the specification\<close>

text \<open>
  The extractor as the specification words it: an ordered table of slots, each
  with its typed key, its legacy string key and its output name; per slot the
  lookups are tried in order and the first non-empty string wins.
\<close>

definition slots :: "(ctx_key \<times> ctx_key \<times> string) list" where
  "slots =
     [(contextKey ''traceId'', stringKey ''traceId'', ''traceId''),
      (contextKey ''srcIP'', stringKey ''srcIP'', ''srcIP''),
      (contextKey ''port'', stringKey ''port'', ''port''),
      (contextKey ''path'', stringKey ''path'', ''path'')]"

fun nonempty_string :: "'fh gvalue \<Rightarrow> string option" where
  "nonempty_string (VString s) = (if s = [] then None else Some s)"
| "nonempty_string _ = None"

definition first_hit :: "'fh Context \<Rightarrow> ctx_key list \<Rightarrow> string option" where
  "first_hit ctx ks =
     (case List.map_filter (\<lambda>k. nonempty_string (Value_ctx ctx k)) ks of
        [] \<Rightarrow> None
      | s # _ \<Rightarrow> Some s)"

definition extract_spec :: "'fh Context \<Rightarrow> 'fh field list" where
  "extract_spec ctx =
     concat (map (\<lambda>(typed, legacy, name).
               case first_hit ctx [typed, legacy] of
                 None \<Rightarrow> []
               | Some s \<Rightarrow> [zap_String name s]) slots)"

text \<open>
  Reading a payload: \<open>lookup\<close> is \<open>m[k]\<close> with its presence flag (a nil map has
  no entries); \<open>descend\<close> follows a path from a mapping to a mapping nested in
  it, a step being either an entry whose value is a mapping (\<open>Key\<close>) or an
  entry whose value is a sequence, and the index of an element that is a
  mapping (\<open>Item\<close>). A scalar is any value that is neither a mapping nor a
  sequence.
\<close>

fun entries :: "'fh gmap \<Rightarrow> (string \<times> 'fh gvalue) list" where
  "entries NilMap = []"
| "entries (Map es) = es"

definition lookup :: "'fh gmap \<Rightarrow> string \<Rightarrow> 'fh gvalue option" where
  "lookup m k = map_of (entries m) k"

datatype step = Key string | Item string nat

fun descend :: "'fh gmap \<Rightarrow> step list \<Rightarrow> 'fh gmap option" where
  "descend m [] = Some m"
| "descend m (Key k # p) =
     (case lookup m k of
        Some (VMap m') \<Rightarrow> descend m' p
      | _ \<Rightarrow> None)"
| "descend m (Item k i # p) =
     (case lookup m k of
        Some (VArray xs) \<Rightarrow>
          (if i < length xs
           then (case xs ! i of VMap m' \<Rightarrow> descend m' p | _ \<Rightarrow> None)
           else None)
      | _ \<Rightarrow> None)"

fun is_scalar :: "'fh gvalue \<Rightarrow> bool" where
  "is_scalar (VMap _) = False"
| "is_scalar (VArray _) = False"
| "is_scalar _ = True"

fun is_map :: "'fh gvalue \<Rightarrow> bool" where
  "is_map (VMap _) = True"
| "is_map _ = False"

section \<open>The masker on a store\<close>

text \<open>
  Go maps and slices are references: two values can name the same object, and a
  write through one is seen through the other. To speak of what masking does to
  its input, the payload is laid out in a store. An address is an index into the
  list of objects allocated so far; \<open>make\<close> appends a new object, so a new
  address is one past the last. \<open>HMap None\<close> is the nil map, \<open>HArray None\<close>
  the nil slice; a scalar is any value the type switch sends to its default
  branch (it is copied as it is, never written through).
\<close>

type_synonym addr = nat

datatype scalar = SNil | SBool bool | SInt int | SString string | SBytes string | SOther string

datatype hvalue =
    HScalar scalar
  | HMap "addr option"
  | HArray "addr option"

datatype hobject = MapObj "(string \<times> hvalue) list" | ArrayObj "hvalue list"

type_synonym heap = "hobject list"

text \<open>
  \<open>make(map[string]interface{}, n)\<close>, \<open>make([]interface{}, n)\<close>,
  \<open>result[key] = v\<close> and \<open>maskedArray[i] = v\<close>. A store through an address that
  holds no object of the right kind cannot happen in Go; the model leaves the
  store as it is.
\<close>

definition make_map :: "heap \<Rightarrow> heap \<times> addr" where
  "make_map h = (h @ [MapObj []], length h)"

definition make_array :: "heap \<Rightarrow> nat \<Rightarrow> heap \<times> addr" where
  "make_array h n = (h @ [ArrayObj (replicate n (HScalar SNil))], length h)"

fun upsert :: "string \<Rightarrow> hvalue \<Rightarrow> (string \<times> hvalue) list \<Rightarrow> (string \<times> hvalue) list" where
  "upsert k v [] = [(k, v)]"
| "upsert k v ((k', v') # es) = (if k' = k then (k, v) # es else (k', v') # upsert k v es)"

definition map_store :: "heap \<Rightarrow> addr \<Rightarrow> string \<Rightarrow> hvalue \<Rightarrow> heap" where
  "map_store h r k v =
     (if r < length h
      then (case h ! r of MapObj es \<Rightarrow> h[r := MapObj (upsert k v es)] | ArrayObj xs \<Rightarrow> h)
      else h)"

definition array_store :: "heap \<Rightarrow> addr \<Rightarrow> nat \<Rightarrow> hvalue \<Rightarrow> heap" where
  "array_store h r i v =
     (if r < length h
      then (case h ! r of ArrayObj xs \<Rightarrow> h[r := ArrayObj (xs[i := v])] | MapObj es \<Rightarrow> h)
      else h)"

definition map_at :: "heap \<Rightarrow> addr \<Rightarrow> (string \<times> hvalue) list option" where
  "map_at h a =
     (if a < length h then (case h ! a of MapObj es \<Rightarrow> Some es | ArrayObj xs \<Rightarrow> None)
      else None)"

definition array_at :: "heap \<Rightarrow> addr option \<Rightarrow> hvalue list option" where
  "array_at h s =
     (case s of
        None \<Rightarrow> Some []
      | Some a \<Rightarrow>
          if a < length h then (case h ! a of ArrayObj xs \<Rightarrow> Some xs | MapObj es \<Rightarrow> None)
          else None)"

text \<open>
  \<open>maskFieldMap\<close> on the store. The recursion follows references, which may
  form a cycle (a map that contains itself), on which the Go function never
  returns: the first argument after the library bounds the nesting depth, and
  \<open>None\<close> is a run that exceeds it. The two \<open>range\<close> loops run over the
  entries and elements their source object holds when the loop starts.
\<close>

fun maskFieldMap_h :: "'fh lib \<Rightarrow> nat \<Rightarrow> heap \<Rightarrow> addr option \<Rightarrow> (heap \<times> addr option) option"
and mask_entries :: "'fh lib \<Rightarrow> nat \<Rightarrow> heap \<Rightarrow> addr \<Rightarrow> (string \<times> hvalue) list \<Rightarrow> heap option"
and mask_items :: "'fh lib \<Rightarrow> nat \<Rightarrow> heap \<Rightarrow> addr \<Rightarrow> nat \<Rightarrow> hvalue list \<Rightarrow> heap option"
where
  "maskFieldMap_h L n h None = Some (h, None)"
| "maskFieldMap_h L 0 h (Some a) = None"
| "maskFieldMap_h L (Suc n) h (Some a) =
     (case map_at h a of
        None \<Rightarrow> None
      | Some es \<Rightarrow>
          (case make_map h of (h1, result) \<Rightarrow>
             (case mask_entries L n h1 result es of
                None \<Rightarrow> None
              | Some h2 \<Rightarrow> Some (h2, Some result))))"
| "mask_entries L n h result [] = Some h"
| "mask_entries L n h result ((key, HMap v) # rest) =
     (case maskFieldMap_h L n h v of
        None \<Rightarrow> None
      | Some (h1, r) \<Rightarrow> mask_entries L n (map_store h1 result key (HMap r)) result rest)"
| "mask_entries L n h result ((key, HArray v) # rest) =
     (case array_at h v of
        None \<Rightarrow> None
      | Some xs \<Rightarrow>
          (case make_array h (length xs) of (h1, maskedArray) \<Rightarrow>
             (case mask_items L n h1 maskedArray 0 xs of
                None \<Rightarrow> None
              | Some h2 \<Rightarrow>
                  mask_entries L n (map_store h2 result key (HArray (Some maskedArray)))
                    result rest)))"
| "mask_entries L n h result ((key, HScalar value) # rest) =
     mask_entries L n
       (map_store h result key
          (if isSensitiveField L key then HScalar (SString (replicate 5 CHR ''*''))
           else HScalar value))
       result rest"
| "mask_items L n h maskedArray i [] = Some h"
| "mask_items L n h maskedArray i (HMap itemMap # rest) =
     (case maskFieldMap_h L n h itemMap of
        None \<Rightarrow> None
      | Some (h1, r) \<Rightarrow>
          mask_items L n (array_store h1 maskedArray i (HMap r)) maskedArray (Suc i) rest)"
| "mask_items L n h maskedArray i (HArray item # rest) =
     mask_items L n (array_store h maskedArray i (HArray item)) maskedArray (Suc i) rest"
| "mask_items L n h maskedArray i (HScalar item # rest) =
     mask_items L n (array_store h maskedArray i (HScalar item)) maskedArray (Suc i) rest"

text \<open>
  \<open>maskField\<close> on the store; \<open>U\<close> is \<open>json.Unmarshal\<close> seen from the store:
  it allocates the decoded mapping and returns its address.
\<close>

fun maskField_h ::
  "'fh lib \<Rightarrow> (string \<Rightarrow> heap \<Rightarrow> (heap \<times> addr option) option) \<Rightarrow> nat \<Rightarrow> heap \<Rightarrow> hvalue
     \<Rightarrow> (heap \<times> hvalue) option" where
  "maskField_h L U n h (HScalar SNil) = Some (h, HScalar SNil)"
| "maskField_h L U n h (HScalar (SBytes bodyByte)) =
     (if length bodyByte = 0 then Some (h, HScalar (SBytes bodyByte))
      else case U bodyByte h of
             None \<Rightarrow> Some (h, HScalar (SString bodyByte))
           | Some (h1, bodyMap) \<Rightarrow>
               (case maskFieldMap_h L n h1 bodyMap of
                  None \<Rightarrow> None
                | Some (h2, r) \<Rightarrow> Some (h2, HMap r)))"
| "maskField_h L U n h (HMap bodyMap) =
     (case maskFieldMap_h L n h bodyMap of
        None \<Rightarrow> None
      | Some (h1, r) \<Rightarrow> Some (h1, HMap r))"
| "maskField_h L U n h body = Some (h, body)"

text \<open>
  A payload is well formed to depth \<open>d\<close> when every reference met within \<open>d\<close>
  nested mappings points to an object of its kind and the nesting ends within
  that depth (so there is no cycle).
\<close>

fun map_ok :: "nat \<Rightarrow> heap \<Rightarrow> addr option \<Rightarrow> bool"
and entries_ok :: "nat \<Rightarrow> heap \<Rightarrow> (string \<times> hvalue) list \<Rightarrow> bool"
and items_ok :: "nat \<Rightarrow> heap \<Rightarrow> hvalue list \<Rightarrow> bool"
where
  "map_ok d h None = True"
| "map_ok 0 h (Some a) = False"
| "map_ok (Suc d) h (Some a) =
     (case map_at h a of None \<Rightarrow> False | Some es \<Rightarrow> entries_ok d h es)"
| "entries_ok d h [] = True"
| "entries_ok d h ((k, HMap v) # rest) = (map_ok d h v \<and> entries_ok d h rest)"
| "entries_ok d h ((k, HArray v) # rest) =
     ((case array_at h v of None \<Rightarrow> False | Some xs \<Rightarrow> items_ok d h xs) \<and> entries_ok d h rest)"
| "entries_ok d h ((k, HScalar s) # rest) = entries_ok d h rest"
| "items_ok d h [] = True"
| "items_ok d h (HMap m # rest) = (map_ok d h m \<and> items_ok d h rest)"
| "items_ok d h (HArray v # rest) = items_ok d h rest"
| "items_ok d h (HScalar s # rest) = items_ok d h rest"

text \<open>
  What an object built by the masker may point to: a new mapping holds, as
  mapping and sequence values, only objects at or after the address \<open>b\<close>; a new
  sequence holds, as mapping elements, only such objects (an element that is
  itself a sequence is copied as it is). \<open>all_built_new b h\<close> says so of every
  object of the store \<open>h\<close> from address \<open>b\<close> on.
\<close>

fun points_from :: "nat \<Rightarrow> hvalue \<Rightarrow> bool" where
  "points_from b (HMap (Some a)) = (b \<le> a)"
| "points_from b (HArray (Some a)) = (b \<le> a)"
| "points_from b v = True"

fun map_points_from :: "nat \<Rightarrow> hvalue \<Rightarrow> bool" where
  "map_points_from b (HMap (Some a)) = (b \<le> a)"
| "map_points_from b v = True"

fun built_new :: "nat \<Rightarrow> hobject \<Rightarrow> bool" where
  "built_new b (MapObj es) = list_all (\<lambda>(k, v). points_from b v) es"
| "built_new b (ArrayObj xs) = list_all (map_points_from b) xs"

definition all_built_new :: "nat \<Rightarrow> heap \<Rightarrow> bool" where
  "all_built_new b h = list_all (built_new b) (drop b h)"

definition sample_heap :: heap where
  "sample_heap =
     [MapObj [(''password'', HScalar (SString ''secret123'')),
              (''items'', HArray (Some 1)),
              (''user'', HMap (Some 2))],
      ArrayObj [HScalar (SInt 1), HMap (Some 2)],
      MapObj [(''Token'', HScalar (SInt 5)), (''name'', HScalar (SString ''john''))]]"

section \<open>A sample library instance\<close>

text \<open>
  Concrete stand-ins for the library functions, used where a theorem is run on an
  explicit input: \<open>ascii_ToLower\<close> is \<open>strings.ToLower\<close> on ASCII text;
  \<open>sample_Unmarshal\<close> decodes the three JSON documents of its table and reports
  an error on every other text; the sample header collection is a list of
  name/value lines, \<open>Del\<close> drops the lines of a name, \<open>Header\<close> prints them.
\<close>

definition ascii_lower :: "char \<Rightarrow> char" where
  "ascii_lower c =
     (case map_of (zip ''ABCDEFGHIJKLMNOPQRSTUVWXYZ'' ''abcdefghijklmnopqrstuvwxyz'') c of
        Some d \<Rightarrow> d
      | None \<Rightarrow> c)"

definition ascii_ToLower :: "string \<Rightarrow> string" where
  "ascii_ToLower s = map ascii_lower s"

definition sample_Unmarshal :: "string \<Rightarrow> (string \<times> string) list gmap option" where
  \<open>sample_Unmarshal s =
     map_of
       [(''{"password":"secret123"}'', Map [(''password'', VString ''secret123'')]),
        (''{"a":1}'', Map [(''a'', VInt 1)]),
        (''{}'', Map [])] s\<close>

definition sample_Del :: "string \<Rightarrow> (string \<times> string) list \<Rightarrow> (string \<times> string) list" where
  "sample_Del key h = filter (\<lambda>(k, v). k \<noteq> key) h"

definition sample_Header :: "(string \<times> string) list \<Rightarrow> string" where
  "sample_Header h = concat (map (\<lambda>(k, v). k @ '': '' @ v @ [CHR 0x0D, CHR 0x0A]) h)"

definition sample_lib :: "(string \<times> string) list lib" where
  "sample_lib =
     \<lparr>strings_ToLower = ascii_ToLower,
      json_Unmarshal = sample_Unmarshal,
      textproto_CanonicalMIMEHeaderKey = (\<lambda>k. k),
      fasthttp_Del = sample_Del,
      fasthttp_Header = sample_Header\<rparr>"

section \<open>Basic facts\<close>

lemma stars: "replicate 5 CHR ''*'' = ''*****''"
  by (simp add: numeral_eq_Suc)

lemma map_of_map_entry:
  "map_of (map (\<lambda>(k, v). (k, f k v)) es) k = map_option (f k) (map_of es k)"
  by (induction es) auto

lemma maskFieldMap_idem: "maskFieldMap L (maskFieldMap L m) = maskFieldMap L m"
proof (induction L m rule: maskFieldMap.induct)
  case (1 L)
  show ?case by simp
next
  case (2 L bodyMap)
  show ?case
    by (auto split: gvalue.splits simp: 2)
qed

lemma entries_maskFieldMap:
  "map fst (entries (maskFieldMap L m)) = map fst (entries m)"
  by (cases m) (auto simp: comp_def case_prod_beta)

lemma lookup_maskFieldMap:
  "lookup (maskFieldMap L m) k =
     map_option (\<lambda>value. case value of
          VMap v \<Rightarrow> VMap (maskFieldMap L v)
        | VArray v \<Rightarrow>
            VArray (map (\<lambda>item. case item of
                                  VMap itemMap \<Rightarrow> VMap (maskFieldMap L itemMap)
                                | _ \<Rightarrow> item) v)
        | _ \<Rightarrow> if isSensitiveField L k then VString (replicate 5 CHR ''*'') else value) (lookup m k)"
proof (cases m)
  case NilMap
  then show ?thesis by (simp add: lookup_def)
next
  case (Map es)
  then show ?thesis
    unfolding lookup_def by (simp add: map_of_map_entry)
qed

lemma lookup_mask_scalar:
  "lookup m k = Some v \<Longrightarrow> is_scalar v \<Longrightarrow>
   lookup (maskFieldMap L m) k = Some (if isSensitiveField L k then VString ''*****'' else v)"
  by (cases v) (simp_all add: lookup_maskFieldMap stars)

lemma lookup_mask_map:
  "lookup m k = Some (VMap x) \<Longrightarrow> lookup (maskFieldMap L m) k = Some (VMap (maskFieldMap L x))"
  by (simp add: lookup_maskFieldMap)

lemma lookup_mask_array:
  "lookup m k = Some (VArray xs) \<Longrightarrow>
   lookup (maskFieldMap L m) k =
     Some (VArray (map (\<lambda>item. case item of VMap itemMap \<Rightarrow> VMap (maskFieldMap L itemMap) | _ \<Rightarrow> item) xs))"
  by (simp add: lookup_maskFieldMap)

lemma descend_maskFieldMap:
  "descend m p = Some m' \<Longrightarrow> descend (maskFieldMap L m) p = Some (maskFieldMap L m')"
proof (induction m p rule: descend.induct)
  case (1 m)
  then show ?case by simp
next
  case (2 m k p)
  then show ?case
    by (auto split: option.splits gvalue.splits simp: lookup_mask_map)
next
  case (3 m k i p)
  then show ?case
    by (auto split: option.splits gvalue.splits if_splits simp: lookup_mask_array)
qed

lemmas sample_simps = isSensitiveField_def sample_lib_def ascii_ToLower_def ascii_lower_def
  SENSITIVE_ATTR_def sample_Unmarshal_def lookup_def stars

section \<open>What masking does to a payload\<close>

text \<open>
  C1 (as amended). Take any mapping \<open>m\<close> and any mapping \<open>m'\<close> nested in it, reached
  through entries whose values are mappings or sequences with mapping elements,
  at any depth. Masking \<open>m\<close> leaves a mapping at the same place, with the keys of
  \<open>m'\<close> in the same order, in which
  \<^item> every entry of \<open>m'\<close> whose value is a scalar (neither a mapping nor a
    sequence) holds exactly \<open>"*****"\<close> when its key, lower-cased, is a sensitive
    key, whatever the scalar's type or length, and its old value otherwise;
  \<^item> every entry of \<open>m'\<close> whose value is a sequence holds a sequence of the same
    length whose non-mapping elements are the old ones.
  An entry whose value is a mapping or a sequence is never replaced by the mask:
  the masker goes into it instead, sensitive key or not.
\<close>

theorem maskFieldMap_masks_scalars:
  assumes "descend m p = Some m'"
  shows "\<exists>m''. descend (maskFieldMap L m) p = Some m''
           \<and> map fst (entries m'') = map fst (entries m')
           \<and> (\<forall>k v. lookup m' k = Some v \<longrightarrow> is_scalar v \<longrightarrow>
                 lookup m'' k = Some (if isSensitiveField L k then VString ''*****'' else v))
           \<and> (\<forall>k xs. lookup m' k = Some (VArray xs) \<longrightarrow>
                 (\<exists>ys. lookup m'' k = Some (VArray ys) \<and> length ys = length xs
                    \<and> (\<forall>i<length xs. \<not> is_map (xs ! i) \<longrightarrow> ys ! i = xs ! i)))"
proof -
  let ?m = "maskFieldMap L m'"
  have d: "descend (maskFieldMap L m) p = Some ?m"
    using assms by (rule descend_maskFieldMap)
  have ks: "map fst (entries ?m) = map fst (entries m')"
    by (rule entries_maskFieldMap)
  have sc: "\<forall>k v. lookup m' k = Some v \<longrightarrow> is_scalar v \<longrightarrow>
                 lookup ?m k = Some (if isSensitiveField L k then VString ''*****'' else v)"
    using lookup_mask_scalar by blast
  have ar: "\<forall>k xs. lookup m' k = Some (VArray xs) \<longrightarrow>
                 (\<exists>ys. lookup ?m k = Some (VArray ys) \<and> length ys = length xs
                    \<and> (\<forall>i<length xs. \<not> is_map (xs ! i) \<longrightarrow> ys ! i = xs ! i))"
  proof (intro allI impI)
    fix k xs assume "lookup m' k = Some (VArray xs)"
    then have "lookup ?m k = Some (VArray (map (\<lambda>item. case item of VMap itemMap \<Rightarrow> VMap (maskFieldMap L itemMap) | _ \<Rightarrow> item) xs))"
      by (rule lookup_mask_array)
    moreover have "\<forall>i<length xs. \<not> is_map (xs ! i) \<longrightarrow>
        (map (\<lambda>item. case item of VMap itemMap \<Rightarrow> VMap (maskFieldMap L itemMap) | _ \<Rightarrow> item) xs) ! i = xs ! i"
      by (auto split: gvalue.splits)
    ultimately show "\<exists>ys. lookup ?m k = Some (VArray ys) \<and> length ys = length xs
                    \<and> (\<forall>i<length xs. \<not> is_map (xs ! i) \<longrightarrow> ys ! i = xs ! i)"
      by simp
  qed
  from d ks sc ar show ?thesis by blast
qed

theorem maskFieldMap_masks_scalars_witness:
  "descend
     (Map [(''data'', VMap (Map [(''users'',
        VArray [VString ''x'',
                VMap (Map [(''Password'', VInt 1234), (''name'', VString ''john'')])])]))])
     [Key ''data'', Item ''users'' 1]
     = Some (Map [(''Password'', VInt 1234), (''name'', VString ''john'')]
              :: (string \<times> string) list gmap)
   \<and> (\<exists>m''. descend (maskFieldMap sample_lib
         (Map [(''data'', VMap (Map [(''users'',
            VArray [VString ''x'',
                    VMap (Map [(''Password'', VInt 1234), (''name'', VString ''john'')])])]))]))
         [Key ''data'', Item ''users'' 1] = Some m''
          \<and> lookup m'' ''Password'' = Some (VString ''*****'')
          \<and> lookup m'' ''name'' = Some (VString ''john''))"
proof -
  let ?inner = "Map [(''Password'', VInt 1234), (''name'', VString ''john'')]
                  :: (string \<times> string) list gmap"
  let ?m = "Map [(''data'', VMap (Map [(''users'', VArray [VString ''x'', VMap ?inner])]))]"
  let ?p = "[Key ''data'', Item ''users'' 1]"
  have h: "descend ?m ?p = Some ?inner"
    by (simp add: lookup_def)
  have l1: "lookup ?inner ''Password'' = Some (VInt 1234)"
    and s1: "is_scalar (VInt 1234 :: (string \<times> string) list gvalue)"
    and l2: "lookup ?inner ''name'' = Some (VString ''john'')"
    and s2: "is_scalar (VString ''john'' :: (string \<times> string) list gvalue)"
    by (simp_all add: lookup_def)
  have p1: "isSensitiveField sample_lib ''Password''"
    and p2: "\<not> isSensitiveField sample_lib ''name''"
    by (simp_all add: sample_simps)
  from maskFieldMap_masks_scalars [OF h, of sample_lib]
  obtain m'' where d: "descend (maskFieldMap sample_lib ?m) ?p = Some m''"
    and sc: "\<forall>k v. lookup ?inner k = Some v \<longrightarrow> is_scalar v \<longrightarrow>
                 lookup m'' k = Some (if isSensitiveField sample_lib k then VString ''*****'' else v)"
    by blast
  from sc l1 s1 p1 have r1: "lookup m'' ''Password'' = Some (VString ''*****'')" by simp
  from sc l2 s2 p2 have r2: "lookup m'' ''name'' = Some (VString ''john'')" by simp
  from h d r1 r2 show ?thesis by blast
qed

text \<open>
  C1 as stated fails on a sensitive key whose value is a sequence (or a mapping):
  \<open>{"password": ["secret123"]}\<close> comes back as it went in.
\<close>

theorem maskFieldMap_nonscalar_counterexample:
  "isSensitiveField sample_lib ''password''
   \<and> lookup (Map [(''password'', VArray [VString ''secret123''])]) ''password''
       = Some (VArray [VString ''secret123''])
   \<and> lookup (maskFieldMap sample_lib (Map [(''password'', VArray [VString ''secret123''])])) ''password''
       = Some (VArray [VString ''secret123''])
   \<and> lookup (maskFieldMap sample_lib (Map [(''password'', VArray [VString ''secret123''])])) ''password''
       \<noteq> Some (VString ''*****'')"
  by (simp add: sample_simps)

text \<open>
  C2 (as amended). For every non-empty \<open>[]byte\<close> input that \<open>json.Unmarshal\<close>
  decodes into a mapping, \<open>maskField\<close> returns that mapping masked recursively,
  not the bytes.
\<close>

theorem maskField_bytes_object:
  assumes "bodyByte \<noteq> []" and "json_Unmarshal L bodyByte = Some bodyMap"
  shows "maskField L (VBytes bodyByte) = VMap (maskFieldMap L bodyMap)"
  using assms by simp

theorem maskField_bytes_object_witness:
  \<open>''{"password":"secret123"}'' \<noteq> []
   \<and> json_Unmarshal sample_lib ''{"password":"secret123"}''
       = Some (Map [(''password'', VString ''secret123'')])
   \<and> maskField sample_lib (VBytes ''{"password":"secret123"}'')
       = VMap (Map [(''password'', VString ''*****'')])\<close>
proof -
  have ne: \<open>''{"password":"secret123"}'' \<noteq> []\<close> by simp
  have um: \<open>json_Unmarshal sample_lib ''{"password":"secret123"}''
       = Some (Map [(''password'', VString ''secret123'')])\<close>
    by (simp add: sample_lib_def sample_Unmarshal_def)
  have mk: "maskFieldMap sample_lib (Map [(''password'', VString ''secret123'')])
       = Map [(''password'', VString ''*****'')]"
    by (simp add: sample_simps)
  from maskField_bytes_object [OF ne um] ne um mk show ?thesis by simp
qed

text \<open>
  C2 as stated fails on strings: \<open>maskField\<close> has no case for a \<open>string\<close>, and a
  string holding JSON object text is returned as the same string, unparsed and
  unmasked.
\<close>

theorem maskField_string_counterexample:
  \<open>json_Unmarshal sample_lib ''{"password":"secret123"}''
       = Some (Map [(''password'', VString ''secret123'')])
   \<and> maskField sample_lib (VString ''{"password":"secret123"}'')
       = VString ''{"password":"secret123"}''
   \<and> maskField sample_lib (VString ''{"password":"secret123"}'')
       \<noteq> VMap (maskFieldMap sample_lib (Map [(''password'', VString ''secret123'')]))\<close>
  by (simp add: sample_lib_def sample_Unmarshal_def)

text \<open>
  C3 (as amended). \<open>maskField\<close> is a total function: it has no failing branch.
  When \<open>json.Unmarshal\<close> reports an error on the content, a string input is
  returned as the same string, and a \<open>[]byte\<close> input is returned as a string
  with the same content (\<open>string(bodyByte)\<close>), except that empty bytes are
  returned as they are.
\<close>

theorem maskField_unparseable:
  assumes "json_Unmarshal L s = None"
  shows "maskField L (VString s) = VString s
         \<and> maskField L (VBytes s) = (if s = [] then VBytes s else VString s)"
  using assms by simp

theorem maskField_unparseable_witness:
  "json_Unmarshal sample_lib ''not json'' = None
   \<and> maskField sample_lib (VString ''not json'') = VString ''not json''
   \<and> maskField sample_lib (VBytes ''not json'') = VString ''not json''"
proof -
  have um: "json_Unmarshal sample_lib ''not json'' = None"
    by (simp add: sample_lib_def sample_Unmarshal_def)
  from maskField_unparseable [OF um] um show ?thesis by simp
qed

text \<open>
  C3 as stated fails on bytes: what comes back for unparseable non-empty bytes is
  a \<open>string\<close>, not the \<open>[]byte\<close> that was passed in.
\<close>

theorem maskField_bytes_counterexample:
  "json_Unmarshal sample_lib ''not json'' = None
   \<and> maskField sample_lib (VBytes ''not json'') \<noteq> VBytes ''not json''"
  by (simp add: sample_lib_def sample_Unmarshal_def)

text \<open>
  C4. Masking is idempotent: masking a masked mapping gives the masked mapping
  again, for \<open>maskFieldMap\<close> and for \<open>maskField\<close> given a mapping.
\<close>

theorem masking_idempotent:
  "maskFieldMap L (maskFieldMap L m) = maskFieldMap L m
   \<and> maskField L (maskField L (VMap m)) = maskField L (VMap m)"
  by (simp add: maskFieldMap_idem)

section \<open>What redaction does to headers\<close>

lemma filter3:
  "filter (\<lambda>e. fst e \<noteq> c) (filter (\<lambda>e. fst e \<noteq> b) (filter (\<lambda>e. fst e \<noteq> a) h))
   = filter (\<lambda>e. fst e \<notin> set [a, b, c]) h"
  by (induction h) auto

text \<open>
  C5. Let the canonical form of each sensitive header name be the name itself,
  and let \<open>Del\<close> of the fasthttp collection drop exactly the lines stored under
  the name it is given (\<open>lines\<close> reads the name/value lines a collection
  holds). Then \<open>removeAuth\<close>
  \<^item> on a \<open>net/http\<close> header returns the header without the entries named
    \<open>Authorization\<close>, \<open>Signature\<close> and \<open>Apikey\<close>, every other entry as it was;
  \<^item> on a fasthttp request header returns the wire text of a collection that
    holds the lines of the input except those three names;
  \<^item> on a value of any other type returns the value unchanged.
\<close>

theorem removeAuth_redacts:
  assumes canon: "\<forall>k\<in>set SENSITIVE_HEADER. textproto_CanonicalMIMEHeaderKey L k = k"
    and del: "\<forall>k\<in>set SENSITIVE_HEADER. \<forall>x.
                 lines (fasthttp_Del L k x) = filter (\<lambda>e. fst e \<noteq> k) (lines x)"
  shows "removeAuth L (VHttpHeader h)
           = VHttpHeader (filter (\<lambda>e. fst e \<notin> set SENSITIVE_HEADER) h)
       \<and> (\<exists>fh'. removeAuth L (VFastHeader fh) = VString (fasthttp_Header L fh')
              \<and> lines fh' = filter (\<lambda>e. fst e \<notin> set SENSITIVE_HEADER) (lines fh))
       \<and> ((\<forall>x. v \<noteq> VHttpHeader x) \<and> (\<forall>x. v \<noteq> VFastHeader x) \<longrightarrow> removeAuth L v = v)"
proof -
  have c: "textproto_CanonicalMIMEHeaderKey L ''Authorization'' = ''Authorization''"
          "textproto_CanonicalMIMEHeaderKey L ''Signature'' = ''Signature''"
          "textproto_CanonicalMIMEHeaderKey L ''Apikey'' = ''Apikey''"
    using canon by (simp_all add: SENSITIVE_HEADER_def)
  have d: "\<And>x. lines (fasthttp_Del L ''Authorization'' x) = filter (\<lambda>e. fst e \<noteq> ''Authorization'') (lines x)"
          "\<And>x. lines (fasthttp_Del L ''Signature'' x) = filter (\<lambda>e. fst e \<noteq> ''Signature'') (lines x)"
          "\<And>x. lines (fasthttp_Del L ''Apikey'' x) = filter (\<lambda>e. fst e \<noteq> ''Apikey'') (lines x)"
    using del by (simp_all add: SENSITIVE_HEADER_def)
  have http: "removeAuth L (VHttpHeader h)
           = VHttpHeader (filter (\<lambda>e. fst e \<notin> set SENSITIVE_HEADER) h)"
    by (simp add: SENSITIVE_HEADER_def http_Header_Del_def c case_prod_beta filter3)
  let ?fh' = "foldl (\<lambda>h val. fasthttp_Del L val h) fh SENSITIVE_HEADER"
  have f1: "removeAuth L (VFastHeader fh) = VString (fasthttp_Header L ?fh')"
    by simp
  have f2: "lines ?fh' = filter (\<lambda>e. fst e \<notin> set SENSITIVE_HEADER) (lines fh)"
    by (simp add: SENSITIVE_HEADER_def d filter3)
  have other: "(\<forall>x. v \<noteq> VHttpHeader x) \<and> (\<forall>x. v \<noteq> VFastHeader x) \<longrightarrow> removeAuth L v = v"
    by (cases v) simp_all
  from http f1 f2 other show ?thesis by blast
qed

theorem removeAuth_redacts_witness:
  "removeAuth sample_lib
      (VHttpHeader [(''Authorization'', [''Bearer token123'']), (''Content-Type'', [''application/json''])])
     = VHttpHeader [(''Content-Type'', [''application/json''])]
   \<and> (\<exists>fh'. removeAuth sample_lib (VFastHeader [(''Apikey'', ''k1''), (''Host'', ''example.org'')])
                = VString (sample_Header fh')
            \<and> fh' = [(''Host'', ''example.org'')])
   \<and> removeAuth sample_lib (VString ''x'') = VString ''x''"
proof -
  have canon: "\<forall>k\<in>set SENSITIVE_HEADER. textproto_CanonicalMIMEHeaderKey sample_lib k = k"
    by (simp add: sample_lib_def)
  have del: "\<forall>k\<in>set SENSITIVE_HEADER. \<forall>x.
      (\<lambda>h. h) (fasthttp_Del sample_lib k x) = filter (\<lambda>e. fst e \<noteq> k) ((\<lambda>h. h) x)"
    by (simp add: sample_lib_def sample_Del_def split_def)
  from removeAuth_redacts [of sample_lib "\<lambda>h. h", OF canon del,
      of "[(''Authorization'', [''Bearer token123'']), (''Content-Type'', [''application/json''])]"
         "[(''Apikey'', ''k1''), (''Host'', ''example.org'')]" "VString ''x''"]
  show ?thesis
    by (simp add: SENSITIVE_HEADER_def sample_lib_def)
qed

section \<open>Fields taken from the context\<close>

lemma first_hit_two:
  "first_hit ctx [a, b] =
     (case nonempty_string (Value_ctx ctx a) of
        Some s \<Rightarrow> Some s
      | None \<Rightarrow> nonempty_string (Value_ctx ctx b))"
  by (simp add: first_hit_def List.map_filter_simps split: option.splits)

lemma slot_step:
  "(case assert_string x of (v, ok) \<Rightarrow>
      if ok \<and> v \<noteq> [] then acc @ [zap_String name v]
      else case assert_string y of (v, ok) \<Rightarrow>
        if ok \<and> v \<noteq> [] then acc @ [zap_String name v] else acc)
   = acc @ (case (case nonempty_string x of Some s \<Rightarrow> Some s | None \<Rightarrow> nonempty_string y) of
              None \<Rightarrow> [] | Some s \<Rightarrow> [zap_String name s])"
  by (cases x; cases y) (auto)

text \<open>
  C6. For every request context, the fields \<open>populateFieldFromContext\<close> returns
  are those of the slot table: for each of trace-id, source-ip, port and path, in
  this order, the typed key is looked up first and the legacy string key of the
  same name second, the first value that is a non-empty string wins, a slot with
  no such value gives no field, and a field carries the slot's literal name
  whichever lookup gave the value.
\<close>

theorem populateFieldFromContext_refines:
  "populateFieldFromContext ctx = extract_spec ctx"
  unfolding populateFieldFromContext_def extract_spec_def slots_def Let_def
    TraceIDKey_def SrcIPKey_def PortKey_def PathKey_def
  apply (simp only: slot_step)
  apply (simp only: first_hit_two list.map concat.simps prod.case append_Nil append_Nil2 append_assoc)
  done

theorem populateFieldFromContext_refines_witness:
  "populateFieldFromContext
     [(contextKey ''traceId'', VString ''''),
      (stringKey ''traceId'', VString ''trace-456''),
      (contextKey ''port'', VString ''8080''),
      (stringKey ''port'', VString ''9090''),
      (contextKey ''path'', VInt 7 :: (string \<times> string) list gvalue)]
   = [zap_String ''traceId'' ''trace-456'', zap_String ''port'' ''8080'']"
proof -
  let ?ctx = "[(contextKey ''traceId'', VString ''''),
      (stringKey ''traceId'', VString ''trace-456''),
      (contextKey ''port'', VString ''8080''),
      (stringKey ''port'', VString ''9090''),
      (contextKey ''path'', VInt 7 :: (string \<times> string) list gvalue)]"
  have e: "extract_spec ?ctx = [zap_String ''traceId'' ''trace-456'', zap_String ''port'' ''8080'']"
    by (simp add: extract_spec_def slots_def first_hit_def Value_ctx_def List.map_filter_simps)
  from populateFieldFromContext_refines [of ?ctx] e show ?thesis by simp
qed

section \<open>The records written\<close>

text \<open>
  C7. Every transaction-detail record is written to the transaction logger at
  level Info with the literal message \<open>":"\<close> and the fields, in this order: the
  context fields, \<open>correlationId\<close>, \<open>header\<close> (redacted), \<open>request\<close> (masked),
  \<open>statusCode\<close>, \<open>method\<close>, \<open>httpStatus\<close>, \<open>response\<close> (masked), \<open>rt\<close> (the
  response time in whole milliseconds), \<open>error\<close>, \<open>otherData\<close>.
\<close>

theorem Log_TDR_fields:
  "Log_TDR L l ctx log =
     l\<lparr>loggerTDR := loggerTDR l @
        [Write InfoLevel '':''
          (populateFieldFromContext ctx @
           [zap_String ''correlationId'' (CorrelationID log),
            zap_Any ''header'' (removeAuth L (Header log)),
            zap_Any ''request'' (toJSON L (maskField L (Request log))),
            zap_String ''statusCode'' (StatusCode log),
            zap_String ''method'' (Method log),
            zap_Uint64 ''httpStatus'' (HttpStatus log),
            zap_Any ''response'' (toJSON L (maskField L (Response log))),
            zap_Int64 ''rt'' (word_of_int (sint (ResponseTime log) sdiv 1000000)),
            zap_Any ''error'' (toJSON L (Error log)),
            zap_Any ''otherData'' (toJSON L (OtherData log))])]\<rparr>"
  by (simp add: Log_TDR_def Let_def Milliseconds_def)

theorem Log_TDR_fields_witness:
  \<open>Log_TDR sample_lib \<lparr>logger = [], loggerTDR = []\<rparr>
     (WithTraceID [] ''trace-123'')
     \<lparr>CorrelationID = ''corr-456'',
      Header = VHttpHeader [(''Authorization'', [''Bearer token123'']),
                            (''Content-Type'', [''application/json''])],
      Request = VBytes ''{"password":"secret123"}'',
      StatusCode = ''200'', Method = ''POST'', Path = ''/api/test'', HttpStatus = 200,
      Response = VMap (Map [(''id'', VInt 1), (''Token'', VString ''abc'')]),
      ResponseTime = 100000000, Error = VNil, OtherData = VString ''{"a":1}''\<rparr>
   = \<lparr>logger = [],
      loggerTDR =
        [Write InfoLevel '':''
          [zap_String ''traceId'' ''trace-123'',
           zap_String ''correlationId'' ''corr-456'',
           zap_Any ''header'' (VHttpHeader [(''Content-Type'', [''application/json''])]),
           zap_Any ''request'' (VMap (Map [(''password'', VString ''*****'')])),
           zap_String ''statusCode'' ''200'',
           zap_String ''method'' ''POST'',
           zap_Uint64 ''httpStatus'' 200,
           zap_Any ''response'' (VMap (Map [(''id'', VInt 1), (''Token'', VString ''*****'')])),
           zap_Int64 ''rt'' 100,
           zap_Any ''error'' VNil,
           zap_Any ''otherData'' (VMap (Map [(''a'', VInt 1)]))]]\<rparr>\<close>
proof -
  have c: "populateFieldFromContext (WithTraceID [] ''trace-123'' :: (string \<times> string) list Context)
             = [zap_String ''traceId'' ''trace-123'']"
    by (simp add: populateFieldFromContext_def WithTraceID_def WithValue_def Value_ctx_def
          TraceIDKey_def SrcIPKey_def PortKey_def PathKey_def)
  have m: "word_of_int (sint (100000000 :: 64 word) sdiv 1000000) = (100 :: 64 word)"
    by (simp add: signed_divide_int_def)
  show ?thesis
    by (simp add: Log_TDR_fields c m SENSITIVE_HEADER_def http_Header_Del_def sample_simps)
qed

lemma toJSON_error: "toJSON L (error_iface err) = error_iface err"
  by (cases err) simp_all

text \<open>
  C8 (as amended). For every \<open>Error\<close>, \<open>Fatal\<close> or \<open>Panic\<close> call the record's
  fields are, in order, the caller's fields, the context fields, and one field
  \<open>error\<close> whose value is \<open>toJSON(err)\<close>. A value of type \<open>error\<close> never has
  dynamic type \<open>string\<close>, so this is \<open>nil\<close> for a nil error and the error as
  given otherwise: its message is not parsed.
\<close>

theorem error_methods_fields:
  "Log_Error L l ctx msg err fs =
     l\<lparr>logger := logger l @
        [Write ErrorLevel msg (fs @ populateFieldFromContext ctx @ [zap_Any ''error'' (error_iface err)])]\<rparr>
   \<and> Log_Fatal L l ctx msg err fs =
     l\<lparr>logger := logger l @
        [Write FatalLevel msg (fs @ populateFieldFromContext ctx @ [zap_Any ''error'' (error_iface err)])]\<rparr>
   \<and> Log_Panic L l ctx msg err fs =
     l\<lparr>logger := logger l @
        [Write PanicLevel msg (fs @ populateFieldFromContext ctx @ [zap_Any ''error'' (error_iface err)])]\<rparr>"
  by (simp add: Log_Error_def Log_Fatal_def Log_Panic_def Let_def toJSON_error)

text \<open>
  C8 as stated fails on an error whose message is valid JSON: the text
  \<open>{"a":1}\<close> is expanded when it is passed to \<open>toJSON\<close> as a string, but an
  error carrying it is logged as the error, not as the decoded mapping.
\<close>

theorem error_json_counterexample:
  \<open>json_Unmarshal sample_lib ''{"a":1}'' = Some (Map [(''a'', VInt 1)])
   \<and> toJSON sample_lib (VString ''{"a":1}'') = VMap (Map [(''a'', VInt 1)])
   \<and> logger (Log_Error sample_lib \<lparr>logger = [], loggerTDR = []\<rparr> [] ''failed'' (Err ''{"a":1}'') [])
       = [Write ErrorLevel ''failed'' [zap_Any ''error'' (VError ''{"a":1}'')]]
   \<and> logger (Log_Error sample_lib \<lparr>logger = [], loggerTDR = []\<rparr> [] ''failed'' (Err ''{"a":1}'') [])
       \<noteq> [Write ErrorLevel ''failed'' [zap_Any ''error'' (VMap (Map [(''a'', VInt 1)]))]]\<close>
  by (simp add: Log_Error_def Let_def sample_lib_def sample_Unmarshal_def
        populateFieldFromContext_def Value_ctx_def)

text \<open>
  C9. \<open>Sync\<close> calls \<open>Sync\<close> on both loggers whatever the first call returns,
  and returns the system logger's error when there is one, the transaction
  logger's result otherwise.
\<close>

theorem Log_Sync_both:
  "logger (fst (Log_Sync zap_Sync l)) = logger l @ [Synced]
   \<and> loggerTDR (fst (Log_Sync zap_Sync l)) = loggerTDR l @ [Synced]
   \<and> snd (Log_Sync zap_Sync l) =
       (if zap_Sync System (logger l) \<noteq> ErrNil then zap_Sync System (logger l)
        else zap_Sync Transaction (loggerTDR l))"
  by (simp add: Log_Sync_def Let_def)

theorem Log_Sync_both_witness:
  "loggerTDR (fst (Log_Sync (\<lambda>s h. if s = System then Err ''disk full'' else ErrNil)
       \<lparr>logger = [Write InfoLevel ''started'' []],
        loggerTDR = ([] :: (string \<times> string) list zap_Logger)\<rparr>)) = [Synced]
   \<and> snd (Log_Sync (\<lambda>s h. if s = System then Err ''disk full'' else ErrNil)
       \<lparr>logger = [Write InfoLevel ''started'' []],
        loggerTDR = ([] :: (string \<times> string) list zap_Logger)\<rparr>) = Err ''disk full''"
  using Log_Sync_both [of "\<lambda>s h. if s = System then Err ''disk full'' else ErrNil"
      "\<lparr>logger = [Write InfoLevel ''started'' []],
        loggerTDR = ([] :: (string \<times> string) list zap_Logger)\<rparr>"]
  by simp

section \<open>Masking leaves its input alone\<close>

lemma length_map_store [simp]: "length (map_store h r k v) = length h"
  by (simp add: map_store_def split: hobject.splits)

lemma length_array_store [simp]: "length (array_store h r i v) = length h"
  by (simp add: array_store_def split: hobject.splits)

lemma take_map_store: "b \<le> r \<Longrightarrow> take b (map_store h r k v) = take b h"
  by (simp add: map_store_def split: hobject.splits)

lemma take_array_store: "b \<le> r \<Longrightarrow> take b (array_store h r i v) = take b h"
  by (simp add: array_store_def split: hobject.splits)

lemma frame_all:
  "(\<forall>h' r. maskFieldMap_h L n h m = Some (h', r) \<longrightarrow>
      length h \<le> length h' \<and> take (length h) h' = h
      \<and> (case r of None \<Rightarrow> m = None | Some a \<Rightarrow> length h \<le> a \<and> a < length h'))"
  "(\<forall>h'. mask_entries L n h result es = Some h' \<longrightarrow>
      length h \<le> length h' \<and> (\<forall>b. b \<le> result \<longrightarrow> b \<le> length h \<longrightarrow> take b h' = take b h))"
  "(\<forall>h'. mask_items L n h maskedArray i xs = Some h' \<longrightarrow>
      length h \<le> length h' \<and> (\<forall>b. b \<le> maskedArray \<longrightarrow> b \<le> length h \<longrightarrow> take b h' = take b h))"
proof (induction L n h m and L n h result es and L n h maskedArray i xs
    rule: maskFieldMap_h_mask_entries_mask_items.induct)
  case (1 L n h)
  show ?case by simp
next
  case (2 L h a)
  show ?case by simp
next
  case (3 L n h a)
  show ?case
  proof (intro allI impI)
    fix h' r assume run: "maskFieldMap_h L (Suc n) h (Some a) = Some (h', r)"
    then obtain es where es: "map_at h a = Some es"
      and body: "mask_entries L n (h @ [MapObj []]) (length h) es = Some h'"
      and r: "r = Some (length h)"
      by (auto simp: make_map_def split: option.splits)
    from 3 [OF es, of "h @ [MapObj []]" "length h"] body
    have len: "length (h @ [MapObj []]) \<le> length h'"
      and tk: "take (length h) h' = take (length h) (h @ [MapObj []])"
      by (simp_all add: make_map_def)
    from len tk r show "length h \<le> length h' \<and> take (length h) h' = h
      \<and> (case r of None \<Rightarrow> Some a = None | Some a \<Rightarrow> length h \<le> a \<and> a < length h')"
      by simp
  qed
next
  case (4 L n h result)
  show ?case by simp
next
  case (5 L n h result key v rest)
  show ?case
  proof (intro allI impI)
    fix h' assume run: "mask_entries L n h result ((key, HMap v) # rest) = Some h'"
    then obtain h1 r where sub: "maskFieldMap_h L n h v = Some (h1, r)"
      and rest: "mask_entries L n (map_store h1 result key (HMap r)) result rest = Some h'"
      by (auto split: option.splits)
    from 5(1) sub have l1: "length h \<le> length h1" and t1: "take (length h) h1 = h"
      by blast+
    from 5(2) [OF sub refl] rest
    have l2: "length h1 \<le> length h'"
      and t2: "\<And>b. b \<le> result \<Longrightarrow> b \<le> length h1 \<Longrightarrow> take b h' = take b (map_store h1 result key (HMap r))"
      by simp_all
    show "length h \<le> length h' \<and> (\<forall>b. b \<le> result \<longrightarrow> b \<le> length h \<longrightarrow> take b h' = take b h)"
    proof (intro conjI allI impI)
      show "length h \<le> length h'" using l1 l2 by simp
    next
      fix b assume b: "b \<le> result" "b \<le> length h"
      then have "take b h' = take b h1" using t2 [of b] l1 by (simp add: take_map_store)
      also have "\<dots> = take b h" using t1 b(2) by (metis min.absorb_iff1 take_take)
      finally show "take b h' = take b h" .
    qed
  qed
next
  case (6 L n h result key v rest)
  show ?case
  proof (intro allI impI)
    fix h' assume run: "mask_entries L n h result ((key, HArray v) # rest) = Some h'"
    then obtain xs h2 where xs: "array_at h v = Some xs"
      and items: "mask_items L n (h @ [ArrayObj (replicate (length xs) (HScalar SNil))]) (length h) 0 xs = Some h2"
      and rest: "mask_entries L n (map_store h2 result key (HArray (Some (length h)))) result rest = Some h'"
      by (auto simp: make_array_def split: option.splits)
    let ?h1 = "h @ [ArrayObj (replicate (length xs) (HScalar SNil))]"
    have mk: "(?h1, length h) = make_array h (length xs)" by (simp add: make_array_def)
    from 6(1) [OF xs mk] items
    have l1: "length ?h1 \<le> length h2"
      and t1: "\<And>b. b \<le> length h \<Longrightarrow> take b h2 = take b h"
      by simp_all
    from 6(2) [OF xs mk items] rest
    have l2: "length h2 \<le> length h'"
      and t2: "\<And>b. b \<le> result \<Longrightarrow> b \<le> length h2 \<Longrightarrow>
                 take b h' = take b (map_store h2 result key (HArray (Some (length h))))"
      by simp_all
    show "length h \<le> length h' \<and> (\<forall>b. b \<le> result \<longrightarrow> b \<le> length h \<longrightarrow> take b h' = take b h)"
    proof (intro conjI allI impI)
      show "length h \<le> length h'" using l1 l2 by simp
    next
      fix b assume b: "b \<le> result" "b \<le> length h"
      then have "take b h' = take b h2" using t2 [of b] l1 by (simp add: take_map_store)
      also have "\<dots> = take b h" using t1 b(2) by simp
      finally show "take b h' = take b h" .
    qed
  qed
next
  case (7 L n h result key "value" rest)
  show ?case
  proof (intro allI impI)
    fix h' assume run: "mask_entries L n h result ((key, HScalar value) # rest) = Some h'"
    let ?v = "if isSensitiveField L key then HScalar (SString (replicate 5 CHR ''*'')) else HScalar value"
    from run have rest: "mask_entries L n (map_store h result key ?v) result rest = Some h'"
      by simp
    from 7 rest
    have l2: "length h \<le> length h'"
      and t2: "\<And>b. b \<le> result \<Longrightarrow> b \<le> length h \<Longrightarrow> take b h' = take b (map_store h result key ?v)"
      by simp_all
    show "length h \<le> length h' \<and> (\<forall>b. b \<le> result \<longrightarrow> b \<le> length h \<longrightarrow> take b h' = take b h)"
      using l2 t2 by (simp add: take_map_store)
  qed
next
  case (8 L n h maskedArray i)
  show ?case by simp
next
  case (9 L n h maskedArray i itemMap rest)
  show ?case
  proof (intro allI impI)
    fix h' assume run: "mask_items L n h maskedArray i (HMap itemMap # rest) = Some h'"
    then obtain h1 r where sub: "maskFieldMap_h L n h itemMap = Some (h1, r)"
      and rest: "mask_items L n (array_store h1 maskedArray i (HMap r)) maskedArray (Suc i) rest = Some h'"
      by (auto split: option.splits)
    from 9(1) sub have l1: "length h \<le> length h1" and t1: "take (length h) h1 = h"
      by blast+
    from 9(2) [OF sub refl] rest
    have l2: "length h1 \<le> length h'"
      and t2: "\<And>b. b \<le> maskedArray \<Longrightarrow> b \<le> length h1 \<Longrightarrow>
                 take b h' = take b (array_store h1 maskedArray i (HMap r))"
      by simp_all
    show "length h \<le> length h' \<and> (\<forall>b. b \<le> maskedArray \<longrightarrow> b \<le> length h \<longrightarrow> take b h' = take b h)"
    proof (intro conjI allI impI)
      show "length h \<le> length h'" using l1 l2 by simp
    next
      fix b assume b: "b \<le> maskedArray" "b \<le> length h"
      then have "take b h' = take b h1" using t2 [of b] l1 by (simp add: take_array_store)
      also have "\<dots> = take b h" using t1 b(2) by (metis min.absorb_iff1 take_take)
      finally show "take b h' = take b h" .
    qed
  qed
next
  case (10 L n h maskedArray i v rest)
  then show ?case by (simp add: take_array_store)
next
  case (11 L n h maskedArray i v rest)
  then show ?case by (simp add: take_array_store)
qed

lemma map_at_take: "map_at (take b h) a = Some es \<Longrightarrow> map_at h a = Some es"
  by (auto simp: map_at_def split: if_splits hobject.splits)

lemma array_at_take: "array_at (take b h) v = Some xs \<Longrightarrow> array_at h v = Some xs"
  by (auto simp: array_at_def split: if_splits hobject.splits option.splits)

lemma returns_all:
  "(\<forall>b. b \<le> length h \<longrightarrow> map_ok n (take b h) m \<longrightarrow>
      (\<exists>h' r. maskFieldMap_h L n h m = Some (h', r)))"
  "(\<forall>b. b \<le> length h \<longrightarrow> b \<le> result \<longrightarrow> entries_ok n (take b h) es \<longrightarrow>
      (\<exists>h'. mask_entries L n h result es = Some h'))"
  "(\<forall>b. b \<le> length h \<longrightarrow> b \<le> maskedArray \<longrightarrow> items_ok n (take b h) xs \<longrightarrow>
      (\<exists>h'. mask_items L n h maskedArray i xs = Some h'))"
proof (induction L n h m and L n h result es and L n h maskedArray i xs
    rule: maskFieldMap_h_mask_entries_mask_items.induct)
  case (1 L n h)
  show ?case by simp
next
  case (2 L h a)
  show ?case by simp
next
  case (3 L n h a)
  show ?case
  proof (intro allI impI)
    fix b assume b: "b \<le> length h" and ok: "map_ok (Suc n) (take b h) (Some a)"
    from ok obtain es where es': "map_at (take b h) a = Some es" and eok: "entries_ok n (take b h) es"
      by (auto split: option.splits)
    from es' have es: "map_at h a = Some es" by (rule map_at_take)
    have mk: "(h @ [MapObj []], length h) = make_map h" by (simp add: make_map_def)
    from b eok have "entries_ok n (take b (h @ [MapObj []])) es" by simp
    with 3 [OF es mk] b obtain h' where "mask_entries L n (h @ [MapObj []]) (length h) es = Some h'"
      by (metis le_SucI length_append_singleton)
    with es show "\<exists>h' r. maskFieldMap_h L (Suc n) h (Some a) = Some (h', r)"
      by (simp add: make_map_def)
  qed
next
  case (4 L n h result)
  show ?case by simp
next
  case (5 L n h result key v rest)
  show ?case
  proof (intro allI impI)
    fix b assume b: "b \<le> length h" "b \<le> result"
      and ok: "entries_ok n (take b h) ((key, HMap v) # rest)"
    from ok have vok: "map_ok n (take b h) v" and rok: "entries_ok n (take b h) rest" by simp_all
    from 5(1) b(1) vok obtain h1 r where sub: "maskFieldMap_h L n h v = Some (h1, r)" by blast
    from frame_all(1) [of L n h v] sub
    have l1: "length h \<le> length h1" and t1: "take (length h) h1 = h" by blast+
    have "take b (map_store h1 result key (HMap r)) = take b h1"
      using b(2) by (rule take_map_store)
    also have "\<dots> = take b h" using t1 b(1) by (metis min.absorb_iff1 take_take)
    finally have tb: "take b (map_store h1 result key (HMap r)) = take b h" .
    from 5(2) [OF sub refl] b l1 rok tb
    obtain h' where "mask_entries L n (map_store h1 result key (HMap r)) result rest = Some h'"
      by (metis le_trans length_map_store)
    with sub show "\<exists>h'. mask_entries L n h result ((key, HMap v) # rest) = Some h'"
      by simp
  qed
next
  case (6 L n h result key v rest)
  show ?case
  proof (intro allI impI)
    fix b assume b: "b \<le> length h" "b \<le> result"
      and ok: "entries_ok n (take b h) ((key, HArray v) # rest)"
    from ok obtain xs where xs': "array_at (take b h) v = Some xs"
      and iok: "items_ok n (take b h) xs" and rok: "entries_ok n (take b h) rest"
      by (auto split: option.splits)
    from xs' have xs: "array_at h v = Some xs" by (rule array_at_take)
    let ?h1 = "h @ [ArrayObj (replicate (length xs) (HScalar SNil))]"
    have mk: "(?h1, length h) = make_array h (length xs)" by (simp add: make_array_def)
    from b(1) iok have "items_ok n (take b ?h1) xs" by simp
    with 6(1) [OF xs mk] b(1)
    obtain h2 where items: "mask_items L n ?h1 (length h) 0 xs = Some h2"
      by (metis le_SucI length_append_singleton)
    from frame_all(3) [of L n ?h1 "length h" 0 xs] items
    have l2: "length ?h1 \<le> length h2" and t2: "take b h2 = take b ?h1"
      using b(1) by auto
    have "take b (map_store h2 result key (HArray (Some (length h)))) = take b h2"
      using b(2) by (rule take_map_store)
    also have "\<dots> = take b h" using t2 b(1) by simp
    finally have tb: "take b (map_store h2 result key (HArray (Some (length h)))) = take b h" .
    from l2 b(1) have bl: "b \<le> length (map_store h2 result key (HArray (Some (length h))))"
      by simp
    from 6(2) [OF xs mk items] bl b(2) rok tb
    obtain h' where "mask_entries L n (map_store h2 result key (HArray (Some (length h)))) result rest = Some h'"
      by metis
    with xs items show "\<exists>h'. mask_entries L n h result ((key, HArray v) # rest) = Some h'"
      by (simp add: make_array_def)
  qed
next
  case (7 L n h result key "value" rest)
  show ?case
  proof (intro allI impI)
    fix b assume b: "b \<le> length h" "b \<le> result"
      and ok: "entries_ok n (take b h) ((key, HScalar value) # rest)"
    let ?v = "if isSensitiveField L key then HScalar (SString (replicate 5 CHR ''*'')) else HScalar value"
    from ok b(2) have "entries_ok n (take b (map_store h result key ?v)) rest"
      by (simp add: take_map_store)
    with 7 b obtain h' where "mask_entries L n (map_store h result key ?v) result rest = Some h'"
      by (metis length_map_store)
    then show "\<exists>h'. mask_entries L n h result ((key, HScalar value) # rest) = Some h'"
      by simp
  qed
next
  case (8 L n h maskedArray i)
  show ?case by simp
next
  case (9 L n h maskedArray i itemMap rest)
  show ?case
  proof (intro allI impI)
    fix b assume b: "b \<le> length h" "b \<le> maskedArray"
      and ok: "items_ok n (take b h) (HMap itemMap # rest)"
    from ok have vok: "map_ok n (take b h) itemMap" and rok: "items_ok n (take b h) rest" by simp_all
    from 9(1) b(1) vok obtain h1 r where sub: "maskFieldMap_h L n h itemMap = Some (h1, r)" by blast
    from frame_all(1) [of L n h itemMap] sub
    have l1: "length h \<le> length h1" and t1: "take (length h) h1 = h" by blast+
    have "take b (array_store h1 maskedArray i (HMap r)) = take b h1"
      using b(2) by (rule take_array_store)
    also have "\<dots> = take b h" using t1 b(1) by (metis min.absorb_iff1 take_take)
    finally have tb: "take b (array_store h1 maskedArray i (HMap r)) = take b h" .
    from 9(2) [OF sub refl] b l1 rok tb
    obtain h' where "mask_items L n (array_store h1 maskedArray i (HMap r)) maskedArray (Suc i) rest = Some h'"
      by (metis le_trans length_array_store)
    with sub show "\<exists>h'. mask_items L n h maskedArray i (HMap itemMap # rest) = Some h'"
      by simp
  qed
next
  case (10 L n h maskedArray i v rest)
  show ?case
  proof (intro allI impI)
    fix b assume b: "b \<le> length h" "b \<le> maskedArray"
      and ok: "items_ok n (take b h) (HArray v # rest)"
    from ok b(2) have "items_ok n (take b (array_store h maskedArray i (HArray v))) rest"
      by (simp add: take_array_store)
    with 10 b obtain h' where "mask_items L n (array_store h maskedArray i (HArray v)) maskedArray (Suc i) rest = Some h'"
      by (metis length_array_store)
    then show "\<exists>h'. mask_items L n h maskedArray i (HArray v # rest) = Some h'"
      by simp
  qed
next
  case (11 L n h maskedArray i v rest)
  show ?case
  proof (intro allI impI)
    fix b assume b: "b \<le> length h" "b \<le> maskedArray"
      and ok: "items_ok n (take b h) (HScalar v # rest)"
    from ok b(2) have "items_ok n (take b (array_store h maskedArray i (HScalar v))) rest"
      by (simp add: take_array_store)
    with 11 b obtain h' where "mask_items L n (array_store h maskedArray i (HScalar v)) maskedArray (Suc i) rest = Some h'"
      by (metis length_array_store)
    then show "\<exists>h'. mask_items L n h maskedArray i (HScalar v # rest) = Some h'"
      by simp
  qed
qed

lemma all_built_new_iff:
  "all_built_new b h \<longleftrightarrow> (\<forall>a. b \<le> a \<longrightarrow> a < length h \<longrightarrow> built_new b (h ! a))"
proof
  assume l: "all_built_new b h"
  show "\<forall>a. b \<le> a \<longrightarrow> a < length h \<longrightarrow> built_new b (h ! a)"
  proof (intro allI impI)
    fix a assume a: "b \<le> a" "a < length h"
    then have "h ! a = drop b h ! (a - b)" and "a - b < length (drop b h)" by simp_all
    with l show "built_new b (h ! a)"
      unfolding all_built_new_def list_all_length by metis
  qed
next
  assume r: "\<forall>a. b \<le> a \<longrightarrow> a < length h \<longrightarrow> built_new b (h ! a)"
  show "all_built_new b h"
    unfolding all_built_new_def list_all_length
  proof (intro allI impI)
    fix n assume "n < length (drop b h)"
    then have "b + n < length h" and "drop b h ! n = h ! (b + n)" by simp_all
    with r show "built_new b (drop b h ! n)" by simp
  qed
qed

lemma list_all_upsert:
  "list_all P es \<Longrightarrow> P (k, v) \<Longrightarrow> list_all P (upsert k v es)"
  by (induction es) auto

lemma list_all_update: "list_all P xs \<Longrightarrow> P v \<Longrightarrow> list_all P (xs[i := v])"
  by (induction xs arbitrary: i) (auto split: nat.splits)

lemma new_map_store:
  assumes "all_built_new b h" and "points_from b v"
  shows "all_built_new b (map_store h r k v)"
  unfolding all_built_new_iff
proof (intro allI impI)
  fix a assume a: "b \<le> a" "a < length (map_store h r k v)"
  then have old: "built_new b (h ! a)" using assms(1) by (simp add: all_built_new_iff)
  show "built_new b (map_store h r k v ! a)"
  proof (cases "r < length h \<and> a = r")
    case True
    then show ?thesis using old assms(2)
      by (cases "h ! r") (simp_all add: map_store_def list_all_upsert)
  next
    case False
    then show ?thesis using old
      by (auto simp: map_store_def split: hobject.splits)
  qed
qed

lemma new_array_store:
  assumes "all_built_new b h" and "map_points_from b v"
  shows "all_built_new b (array_store h r i v)"
  unfolding all_built_new_iff
proof (intro allI impI)
  fix a assume a: "b \<le> a" "a < length (array_store h r i v)"
  then have old: "built_new b (h ! a)" using assms(1) by (simp add: all_built_new_iff)
  show "built_new b (array_store h r i v ! a)"
  proof (cases "r < length h \<and> a = r")
    case True
    then show ?thesis using old assms(2)
      by (cases "h ! r") (simp_all add: array_store_def list_all_update)
  next
    case False
    then show ?thesis using old
      by (auto simp: array_store_def split: hobject.splits)
  qed
qed

lemma new_append:
  "all_built_new b h \<Longrightarrow> built_new b obj \<Longrightarrow> all_built_new b (h @ [obj])"
  by (auto simp: all_built_new_iff nth_append)

lemma returned_ref_new:
  assumes "maskFieldMap_h L n h m = Some (h1, r)" and "b \<le> length h"
  shows "points_from b (HMap r)" and "map_points_from b (HMap r)" and "length h \<le> length h1"
proof -
  from frame_all(1) [of L n h m] assms(1)
  have l: "length h \<le> length h1"
    and f: "(case r of None \<Rightarrow> m = None | Some a \<Rightarrow> length h \<le> a \<and> a < length h1)"
    by blast+
  from f assms(2) show "points_from b (HMap r)" and "map_points_from b (HMap r)"
    by (cases r; simp)+
  from l show "length h \<le> length h1" .
qed

lemma new_all:
  "(\<forall>b h' r. maskFieldMap_h L n h m = Some (h', r) \<longrightarrow> b \<le> length h \<longrightarrow>
      all_built_new b h \<longrightarrow> all_built_new b h')"
  "(\<forall>b h'. mask_entries L n h result es = Some h' \<longrightarrow> b \<le> length h \<longrightarrow>
      all_built_new b h \<longrightarrow> all_built_new b h')"
  "(\<forall>b h'. mask_items L n h maskedArray i xs = Some h' \<longrightarrow> b \<le> length h \<longrightarrow>
      all_built_new b h \<longrightarrow> all_built_new b h')"
proof (induction L n h m and L n h result es and L n h maskedArray i xs
    rule: maskFieldMap_h_mask_entries_mask_items.induct)
  case (1 L n h)
  show ?case by simp
next
  case (2 L h a)
  show ?case by simp
next
  case (3 L n h a)
  show ?case
  proof (intro allI impI)
    fix b h' r
    assume run: "maskFieldMap_h L (Suc n) h (Some a) = Some (h', r)"
      and b: "b \<le> length h" and inv: "all_built_new b h"
    from run obtain es where es: "map_at h a = Some es"
      and body: "mask_entries L n (h @ [MapObj []]) (length h) es = Some h'"
      by (auto simp: make_map_def split: option.splits)
    have mk: "(h @ [MapObj []], length h) = make_map h" by (simp add: make_map_def)
    from inv have "all_built_new b (h @ [MapObj []])" by (rule new_append) simp
    with 3 [OF es mk] body b show "all_built_new b h'" by simp
  qed
next
  case (4 L n h result)
  show ?case by simp
next
  case (5 L n h result key v rest)
  show ?case
  proof (intro allI impI)
    fix b h'
    assume run: "mask_entries L n h result ((key, HMap v) # rest) = Some h'"
      and b: "b \<le> length h" and inv: "all_built_new b h"
    from run obtain h1 r where sub: "maskFieldMap_h L n h v = Some (h1, r)"
      and rest: "mask_entries L n (map_store h1 result key (HMap r)) result rest = Some h'"
      by (auto split: option.splits)
    from 5(1) sub b inv have i1: "all_built_new b h1" by blast
    from returned_ref_new [OF sub b] have pr: "points_from b (HMap r)" and l1: "length h \<le> length h1"
      by simp_all
    from i1 pr have "all_built_new b (map_store h1 result key (HMap r))" by (rule new_map_store)
    with 5(2) [OF sub refl] rest b l1 show "all_built_new b h'" by simp
  qed
next
  case (6 L n h result key v rest)
  show ?case
  proof (intro allI impI)
    fix b h'
    assume run: "mask_entries L n h result ((key, HArray v) # rest) = Some h'"
      and b: "b \<le> length h" and inv: "all_built_new b h"
    from run obtain xs h2 where xs: "array_at h v = Some xs"
      and items: "mask_items L n (h @ [ArrayObj (replicate (length xs) (HScalar SNil))]) (length h) 0 xs = Some h2"
      and rest: "mask_entries L n (map_store h2 result key (HArray (Some (length h)))) result rest = Some h'"
      by (auto simp: make_array_def split: option.splits)
    let ?h1 = "h @ [ArrayObj (replicate (length xs) (HScalar SNil))]"
    have mk: "(?h1, length h) = make_array h (length xs)" by (simp add: make_array_def)
    have "built_new b (ArrayObj (replicate (length xs) (HScalar SNil)))"
      by (simp add: list_all_length)
    with inv have "all_built_new b ?h1" by (rule new_append)
    with 6(1) [OF xs mk] items b have i2: "all_built_new b h2" by simp
    from frame_all(3) [of L n ?h1 "length h" 0 xs] items have l2: "length ?h1 \<le> length h2"
      by blast
    from b have "points_from b (HArray (Some (length h)))" by simp
    with i2 have "all_built_new b (map_store h2 result key (HArray (Some (length h))))"
      by (rule new_map_store)
    with 6(2) [OF xs mk items] rest b l2 show "all_built_new b h'" by simp
  qed
next
  case (7 L n h result key "value" rest)
  show ?case
  proof (intro allI impI)
    fix b h'
    assume run: "mask_entries L n h result ((key, HScalar value) # rest) = Some h'"
      and b: "b \<le> length h" and inv: "all_built_new b h"
    let ?v = "if isSensitiveField L key then HScalar (SString (replicate 5 CHR ''*'')) else HScalar value"
    have "points_from b ?v" by simp
    with inv have "all_built_new b (map_store h result key ?v)" by (rule new_map_store)
    with 7 run b show "all_built_new b h'" by simp
  qed
next
  case (8 L n h maskedArray i)
  show ?case by simp
next
  case (9 L n h maskedArray i itemMap rest)
  show ?case
  proof (intro allI impI)
    fix b h'
    assume run: "mask_items L n h maskedArray i (HMap itemMap # rest) = Some h'"
      and b: "b \<le> length h" and inv: "all_built_new b h"
    from run obtain h1 r where sub: "maskFieldMap_h L n h itemMap = Some (h1, r)"
      and rest: "mask_items L n (array_store h1 maskedArray i (HMap r)) maskedArray (Suc i) rest = Some h'"
      by (auto split: option.splits)
    from 9(1) sub b inv have i1: "all_built_new b h1" by blast
    from returned_ref_new [OF sub b] have pr: "map_points_from b (HMap r)" and l1: "length h \<le> length h1"
      by simp_all
    from i1 pr have "all_built_new b (array_store h1 maskedArray i (HMap r))" by (rule new_array_store)
    with 9(2) [OF sub refl] rest b l1 show "all_built_new b h'" by simp
  qed
next
  case (10 L n h maskedArray i v rest)
  show ?case
  proof (intro allI impI)
    fix b h'
    assume run: "mask_items L n h maskedArray i (HArray v # rest) = Some h'"
      and b: "b \<le> length h" and inv: "all_built_new b h"
    have "map_points_from b (HArray v)" by simp
    with inv have "all_built_new b (array_store h maskedArray i (HArray v))" by (rule new_array_store)
    with 10 run b show "all_built_new b h'" by simp
  qed
next
  case (11 L n h maskedArray i v rest)
  show ?case
  proof (intro allI impI)
    fix b h'
    assume run: "mask_items L n h maskedArray i (HScalar v # rest) = Some h'"
      and b: "b \<le> length h" and inv: "all_built_new b h"
    have "map_points_from b (HScalar v)" by simp
    with inv have "all_built_new b (array_store h maskedArray i (HScalar v))" by (rule new_array_store)
    with 11 run b show "all_built_new b h'" by simp
  qed
qed

lemma all_built_new_start: "all_built_new (length h) h"
  by (simp add: all_built_new_def)

lemma sample_ok: "map_ok (Suc (Suc (Suc 0))) sample_heap (Some 0)"
  by (simp add: sample_heap_def map_at_def array_at_def)

lemma sample_run:
  "maskFieldMap_h sample_lib (Suc (Suc (Suc 0))) sample_heap (Some 0) =
     Some (sample_heap @
       [MapObj [(''password'', HScalar (SString ''*****'')),
                (''items'', HArray (Some 4)),
                (''user'', HMap (Some 6))],
        ArrayObj [HScalar (SInt 1), HMap (Some 5)],
        MapObj [(''Token'', HScalar (SString ''*****'')), (''name'', HScalar (SString ''john''))],
        MapObj [(''Token'', HScalar (SString ''*****'')), (''name'', HScalar (SString ''john''))]],
       Some 3)"
  by (simp add: sample_heap_def map_at_def array_at_def make_map_def make_array_def
        map_store_def array_store_def isSensitiveField_def sample_lib_def ascii_ToLower_def
        ascii_lower_def SENSITIVE_ATTR_def stars)

text \<open>
  C10. Masking a mapping never mutates its input. Whenever \<open>maskFieldMap\<close>, or
  \<open>maskField\<close> given a mapping, returns, every object that existed before the
  call (the input mapping, the mappings and sequences nested in it, and all
  others) holds what it held before; the mapping returned is a new object (or
  nil for the nil mapping); and in every object the call built, each mapping and
  each sequence value of a mapping is again an object the call built. On a
  payload well formed to depth \<open>n\<close> both functions do return.
\<close>

theorem masking_never_mutates_input:
  "(\<forall>h' r. maskFieldMap_h L n h m = Some (h', r) \<longrightarrow>
       length h \<le> length h' \<and> (\<forall>a<length h. h' ! a = h ! a)
       \<and> (case r of None \<Rightarrow> m = None | Some a \<Rightarrow> length h \<le> a \<and> a < length h')
       \<and> all_built_new (length h) h')
   \<and> (\<forall>h' v. maskField_h L U n h (HMap m) = Some (h', v) \<longrightarrow>
       length h \<le> length h' \<and> (\<forall>a<length h. h' ! a = h ! a)
       \<and> (\<exists>r. v = HMap r \<and> (case r of None \<Rightarrow> m = None | Some a \<Rightarrow> length h \<le> a \<and> a < length h'))
       \<and> all_built_new (length h) h')
   \<and> (map_ok n h m \<longrightarrow>
       (\<exists>h' r. maskFieldMap_h L n h m = Some (h', r)
              \<and> maskField_h L U n h (HMap m) = Some (h', HMap r)))"
proof -
  have A: "\<forall>h' r. maskFieldMap_h L n h m = Some (h', r) \<longrightarrow>
       length h \<le> length h' \<and> (\<forall>a<length h. h' ! a = h ! a)
       \<and> (case r of None \<Rightarrow> m = None | Some a \<Rightarrow> length h \<le> a \<and> a < length h')
       \<and> all_built_new (length h) h'"
  proof (intro allI impI)
    fix h' r assume run: "maskFieldMap_h L n h m = Some (h', r)"
    with frame_all(1) [of L n h m]
    have l: "length h \<le> length h'" and t: "take (length h) h' = h"
      and f: "(case r of None \<Rightarrow> m = None | Some a \<Rightarrow> length h \<le> a \<and> a < length h')"
      by blast+
    from t l have k: "\<forall>a<length h. h' ! a = h ! a" by (metis nth_take)
    from new_all(1) [of L n h m] run all_built_new_start [of h]
    have b: "all_built_new (length h) h'" by blast
    from l k f b show "length h \<le> length h' \<and> (\<forall>a<length h. h' ! a = h ! a)
       \<and> (case r of None \<Rightarrow> m = None | Some a \<Rightarrow> length h \<le> a \<and> a < length h')
       \<and> all_built_new (length h) h'"
      by blast
  qed
  have B: "\<forall>h' v. maskField_h L U n h (HMap m) = Some (h', v) \<longrightarrow>
       length h \<le> length h' \<and> (\<forall>a<length h. h' ! a = h ! a)
       \<and> (\<exists>r. v = HMap r \<and> (case r of None \<Rightarrow> m = None | Some a \<Rightarrow> length h \<le> a \<and> a < length h'))
       \<and> all_built_new (length h) h'"
  proof (intro allI impI)
    fix h' v assume run: "maskField_h L U n h (HMap m) = Some (h', v)"
    then obtain r where "maskFieldMap_h L n h m = Some (h', r)" and v: "v = HMap r"
      by (auto split: option.splits)
    with A show "length h \<le> length h' \<and> (\<forall>a<length h. h' ! a = h ! a)
       \<and> (\<exists>r. v = HMap r \<and> (case r of None \<Rightarrow> m = None | Some a \<Rightarrow> length h \<le> a \<and> a < length h'))
       \<and> all_built_new (length h) h'"
      by blast
  qed
  have C: "map_ok n h m \<longrightarrow>
       (\<exists>h' r. maskFieldMap_h L n h m = Some (h', r)
              \<and> maskField_h L U n h (HMap m) = Some (h', HMap r))"
  proof
    assume ok: "map_ok n h m"
    with returns_all(1) [of h n m L] obtain h' r where "maskFieldMap_h L n h m = Some (h', r)"
      by (metis order_refl take_all)
    then show "\<exists>h' r. maskFieldMap_h L n h m = Some (h', r)
              \<and> maskField_h L U n h (HMap m) = Some (h', HMap r)"
      by simp
  qed
  from A B C show ?thesis by blast
qed

theorem masking_never_mutates_input_witness:
  "map_ok (Suc (Suc (Suc 0))) sample_heap (Some 0)
   \<and> (\<exists>h' r. maskFieldMap_h sample_lib (Suc (Suc (Suc 0))) sample_heap (Some 0) = Some (h', r)
          \<and> maskField_h sample_lib (\<lambda>s h. None) (Suc (Suc (Suc 0))) sample_heap (HMap (Some 0))
              = Some (h', HMap r)
          \<and> h' ! 0 = sample_heap ! 0 \<and> h' ! 1 = sample_heap ! 1 \<and> h' ! 2 = sample_heap ! 2
          \<and> r = Some 3)"
proof -
  let ?n = "Suc (Suc (Suc 0))"
  note T = masking_never_mutates_input [of sample_lib ?n sample_heap "Some 0" "\<lambda>s h. None"]
  from T sample_ok obtain h' r
    where run: "maskFieldMap_h sample_lib ?n sample_heap (Some 0) = Some (h', r)"
      and mf: "maskField_h sample_lib (\<lambda>s h. None) ?n sample_heap (HMap (Some 0)) = Some (h', HMap r)"
    by blast
  from T run have fr: "\<forall>a<length sample_heap. h' ! a = sample_heap ! a"
    by blast
  have len: "length sample_heap = 3"
    by (simp add: sample_heap_def)
  from fr len have keep: "h' ! 0 = sample_heap ! 0" "h' ! 1 = sample_heap ! 1" "h' ! 2 = sample_heap ! 2"
    by simp_all
  from run sample_run have r: "r = Some 3"
    by simp
  from sample_ok run mf keep r show ?thesis
    by blast
qed

end
